theory Spec2Isabelle
  imports Main "HOL-Library.Word"
begin

unbundle bit_operations_syntax

section \<open>The operating system as seen by \<open>ebph/utils.py\<close>\<close>

text \<open>
  The functions of \<open>utils.py\<close> that are verified here query the operating system three
  ways: \<open>os.stat\<close>, \<open>os.readlink\<close> and reading a text file under \<open>/proc\<close>. Each call
  either yields a value or raises. The state of the system is a record of the three
  queries; an exception is a value on the left of a sum.

  \<open>os.stat\<close> and \<open>os.readlink\<close> raise subclasses of \<open>OSError\<close> only. Reading a file
  opened with \<open>encoding='utf-8'\<close> may also raise \<open>UnicodeDecodeError\<close>, which is a
  \<open>ValueError\<close> and not an \<open>OSError\<close>.

  A Python \<open>str\<close> is modelled as a \<open>string\<close> whose characters are the code points
  0 to 255; a Python \<open>int\<close> is an \<open>int\<close>; a byte is a natural number below 256.
\<close>

datatype os_error = FileNotFoundError | ProcessLookupError | PermissionError | OtherOSError

datatype exn = OSError os_error | UnicodeDecodeError

type_synonym 'a result = "exn + 'a"

record os_state =
  os_stat :: "string \<Rightarrow> os_error + (int \<times> int)"
  os_readlink :: "string \<Rightarrow> os_error + string"
  os_read_text :: "string \<Rightarrow> exn + string"

section \<open>Python strings\<close>

subsection \<open>\<open>str(int)\<close> and \<open>int(str)\<close>\<close>

definition digit_char :: "nat \<Rightarrow> char" where
  "digit_char d = char_of (48 + d)"

function nat_digits :: "nat \<Rightarrow> string" where
  "nat_digits n = (if n < 10 then [digit_char n] else nat_digits (n div 10) @ [digit_char (n mod 10)])"
  by pat_completeness auto
termination
  by (relation "measure id") auto

declare nat_digits.simps [simp del]

definition py_str_int :: "int \<Rightarrow> string" where
  "py_str_int i = (if i < 0 then CHR ''-'' # nat_digits (nat (- i)) else nat_digits (nat i))"

definition digit_value :: "char \<Rightarrow> int" where
  "digit_value c = int (of_char c) - 48"

definition py_int :: "string \<Rightarrow> int" where
  "py_int s = foldl (\<lambda>acc c. 10 * acc + digit_value c) 0 s"

subsection \<open>\<open>str.lower\<close>, \<open>str.strip\<close>, \<open>str.splitlines\<close>, \<open>str.split\<close>, \<open>str.rsplit\<close>\<close>

definition py_lower_char :: "char \<Rightarrow> char" where
  "py_lower_char c =
     (let n = (of_char c :: nat) in
      if (65 \<le> n \<and> n \<le> 90) \<or> (192 \<le> n \<and> n \<le> 222 \<and> n \<noteq> 215) then char_of (n + 32) else c)"

definition py_lower :: "string \<Rightarrow> string" where
  "py_lower s = map py_lower_char s"

definition is_space :: "char \<Rightarrow> bool" where
  "is_space c =
     (let n = (of_char c :: nat) in
      (9 \<le> n \<and> n \<le> 13) \<or> (28 \<le> n \<and> n \<le> 32) \<or> n = 133 \<or> n = 160)"

definition py_strip :: "string \<Rightarrow> string" where
  "py_strip s = rev (dropWhile is_space (rev (dropWhile is_space s)))"

definition is_linebreak :: "char \<Rightarrow> bool" where
  "is_linebreak c =
     (let n = (of_char c :: nat) in (10 \<le> n \<and> n \<le> 13) \<or> (28 \<le> n \<and> n \<le> 30) \<or> n = 133)"

fun splitlines_from :: "string \<Rightarrow> string \<Rightarrow> string list" where
  "splitlines_from cur [] = (if cur = [] then [] else [cur])"
| "splitlines_from cur [c] = (if is_linebreak c then [cur] else [cur @ [c]])"
| "splitlines_from cur (c # d # cs) =
     (if c = CHR 0x0D \<and> d = CHR 0x0A then cur # splitlines_from [] cs
      else if is_linebreak c then cur # splitlines_from [] (d # cs)
      else splitlines_from (cur @ [c]) (d # cs))"

definition py_splitlines :: "string \<Rightarrow> string list" where
  "py_splitlines s = splitlines_from [] s"

fun py_split :: "char \<Rightarrow> nat \<Rightarrow> string \<Rightarrow> string list" where
  "py_split sep 0 s = [s]"
| "py_split sep (Suc n) s =
     (if sep \<in> set s
      then takeWhile (\<lambda>c. c \<noteq> sep) s # py_split sep n (tl (dropWhile (\<lambda>c. c \<noteq> sep) s))
      else [s])"

definition py_rsplit1_last :: "char \<Rightarrow> string \<Rightarrow> string" where
  "py_rsplit1_last sep s = rev (takeWhile (\<lambda>c. c \<noteq> sep) (rev s))"

section \<open>The regular expressions of \<open>utils.py\<close>\<close>

text \<open>
  The three patterns of the module are sequences of character classes with a repetition
  count, joined by alternation at the top. An atom is a class (the list of its characters),
  a least count and a greatest count (\<open>None\<close> for no bound). Repetition is greedy with
  backtracking, alternation takes the first alternative that matches, as Python's \<open>re\<close>
  does. Under \<open>re.IGNORECASE\<close> a character matches a class when its lower-case form is
  the lower-case form of a member.
\<close>

record atom =
  cls :: "char list"
  lo :: nat
  hi :: "nat option"

definition cls_mem :: "bool \<Rightarrow> char list \<Rightarrow> char \<Rightarrow> bool" where
  "cls_mem ic cs c = (if ic then py_lower_char c \<in> set (map py_lower_char cs) else c \<in> set cs)"

fun first_some :: "('a \<Rightarrow> 'b option) \<Rightarrow> 'a list \<Rightarrow> 'b option" where
  "first_some f [] = None"
| "first_some f (x # xs) = (case f x of Some r \<Rightarrow> Some r | None \<Rightarrow> first_some f xs)"

definition run_length :: "bool \<Rightarrow> atom \<Rightarrow> string \<Rightarrow> nat" where
  "run_length ic a s =
     (let n = length (takeWhile (cls_mem ic (cls a)) s) in
      case hi a of None \<Rightarrow> n | Some h \<Rightarrow> min h n)"

primrec match_atoms :: "atom list \<Rightarrow> bool \<Rightarrow> string \<Rightarrow> string list option" where
  "match_atoms [] ic s = Some []"
| "match_atoms (a # as) ic s =
     first_some
       (\<lambda>k. case match_atoms as ic (drop k s) of None \<Rightarrow> None | Some caps \<Rightarrow> Some (take k s # caps))
       (rev [lo a ..< Suc (run_length ic a s)])"

definition match_alts :: "atom list list \<Rightarrow> bool \<Rightarrow> string \<Rightarrow> string list option" where
  "match_alts alts ic s = first_some (\<lambda>as. match_atoms as ic s) alts"

definition re_match :: "atom list list \<Rightarrow> bool \<Rightarrow> string \<Rightarrow> string list option" where
  "re_match alts ic s = match_alts alts ic s"

fun re_search :: "atom list list \<Rightarrow> bool \<Rightarrow> string \<Rightarrow> string list option" where
  "re_search alts ic [] = match_alts alts ic []"
| "re_search alts ic (c # cs) =
     (case match_alts alts ic (c # cs) of Some caps \<Rightarrow> Some caps | None \<Rightarrow> re_search alts ic cs)"

function re_findall :: "atom list list \<Rightarrow> bool \<Rightarrow> string \<Rightarrow> string list" where
  "re_findall alts ic [] =
     (case match_alts alts ic [] of None \<Rightarrow> [] | Some caps \<Rightarrow> [concat caps])"
| "re_findall alts ic (c # cs) =
     (case match_alts alts ic (c # cs) of
        None \<Rightarrow> re_findall alts ic cs
      | Some caps \<Rightarrow>
          (if concat caps = [] then [] # re_findall alts ic cs
           else concat caps # re_findall alts ic (drop (length (concat caps)) (c # cs))))"
  by pat_completeness auto
termination
  by (relation "measure (\<lambda>(alts, ic, s). length s)") auto

definition lit :: "string \<Rightarrow> atom list" where
  "lit s = map (\<lambda>c. \<lparr>cls = [c], lo = 1, hi = Some 1\<rparr>) s"

definition hex_class :: "char list" where
  "hex_class = ''0123456789abcdef''"

text \<open>\<open>r'([0-9a-f]{64}|[0-9a-f]{32}|[0-9a-f]{12})'\<close>\<close>

definition hex_id_pattern :: "atom list list" where
  "hex_id_pattern =
     [[\<lparr>cls = hex_class, lo = 64, hi = Some 64\<rparr>],
      [\<lparr>cls = hex_class, lo = 32, hi = Some 32\<rparr>],
      [\<lparr>cls = hex_class, lo = 12, hi = Some 12\<rparr>]]"

text \<open>\<open>r'pod([0-9a-f-]{32,36})'\<close>; group 1 is the fourth atom.\<close>

definition kube_pattern :: "atom list list" where
  "kube_pattern = [lit ''pod'' @ [\<lparr>cls = hex_class @ ''-'', lo = 32, hi = Some 36\<rparr>]]"

text \<open>\<open>r'cgroup:\[(\d+)\]'\<close>; group 1 is the ninth atom.\<close>

definition cgroup_link_pattern :: "atom list list" where
  "cgroup_link_pattern =
     [lit ''cgroup:['' @ [\<lparr>cls = ''0123456789'', lo = 1, hi = None\<rparr>] @ lit '']'']"

section \<open>BLAKE2b, as \<open>hashlib.blake2b\<close> computes it\<close>

text \<open>
  \<open>hashlib.blake2b(digest_size=8)\<close> is the unkeyed BLAKE2b of RFC 7693 with an output of
  8 bytes. A 64-bit word is a natural number below \<open>2 ^ 64\<close>, with the wrap-around
  written out. The hash object collects the bytes of its \<open>update\<close> calls; \<open>digest\<close> hashes
  what was collected.
\<close>

definition add64 :: "nat \<Rightarrow> nat \<Rightarrow> nat" where
  "add64 a b = (a + b) mod 2 ^ 64"

definition rotr64 :: "nat \<Rightarrow> nat \<Rightarrow> nat" where
  "rotr64 n w = w div 2 ^ n + (w mod 2 ^ n) * 2 ^ (64 - n)"

definition not64 :: "nat \<Rightarrow> nat" where
  "not64 w = 2 ^ 64 - 1 - w"

definition blake2b_IV :: "nat list" where
  "blake2b_IV =
     [0x6a09e667f3bcc908, 0xbb67ae8584caa73b, 0x3c6ef372fe94f82b, 0xa54ff53a5f1d36f1,
      0x510e527fade682d1, 0x9b05688c2b3e6c1f, 0x1f83d9abfb41bd6b, 0x5be0cd19137e2179]"

definition blake2b_SIGMA :: "nat list list" where
  "blake2b_SIGMA =
    [[0, 1, 2, 3, 4, 5, 6, 7, 8, 9, 10, 11, 12, 13, 14, 15],
     [14, 10, 4, 8, 9, 15, 13, 6, 1, 12, 0, 2, 11, 7, 5, 3],
     [11, 8, 12, 0, 5, 2, 15, 13, 10, 14, 3, 6, 7, 1, 9, 4],
     [7, 9, 3, 1, 13, 12, 11, 14, 2, 6, 5, 10, 4, 0, 15, 8],
     [9, 0, 5, 7, 2, 4, 10, 15, 14, 1, 11, 12, 6, 8, 3, 13],
     [2, 12, 6, 10, 0, 11, 8, 3, 4, 13, 7, 5, 15, 14, 1, 9],
     [12, 5, 1, 15, 14, 13, 4, 10, 0, 7, 6, 3, 9, 2, 8, 11],
     [13, 11, 7, 14, 12, 1, 3, 9, 5, 0, 15, 4, 8, 6, 2, 10],
     [6, 15, 14, 9, 11, 3, 0, 8, 12, 2, 13, 7, 1, 4, 10, 5],
     [10, 2, 8, 4, 7, 6, 1, 5, 15, 11, 9, 14, 3, 12, 13, 0]]"

definition blake2b_G ::
  "nat \<Rightarrow> nat \<Rightarrow> nat \<Rightarrow> nat \<Rightarrow> nat \<Rightarrow> nat \<Rightarrow> nat list \<Rightarrow> nat list" where
  "blake2b_G a b c d x y v0 =
    (let v1 = v0[a := add64 (add64 (v0 ! a) (v0 ! b)) x];
         v2 = v1[d := rotr64 32 (v1 ! d XOR v1 ! a)];
         v3 = v2[c := add64 (v2 ! c) (v2 ! d)];
         v4 = v3[b := rotr64 24 (v3 ! b XOR v3 ! c)];
         v5 = v4[a := add64 (add64 (v4 ! a) (v4 ! b)) y];
         v6 = v5[d := rotr64 16 (v5 ! d XOR v5 ! a)];
         v7 = v6[c := add64 (v6 ! c) (v6 ! d)];
         v8 = v7[b := rotr64 63 (v7 ! b XOR v7 ! c)]
     in v8)"

definition blake2b_round :: "nat list \<Rightarrow> nat \<Rightarrow> nat list \<Rightarrow> nat list" where
  "blake2b_round m i v =
    (let s = blake2b_SIGMA ! (i mod 10) in
       blake2b_G 3 4 9 14 (m ! (s ! 14)) (m ! (s ! 15))
      (blake2b_G 2 7 8 13 (m ! (s ! 12)) (m ! (s ! 13))
      (blake2b_G 1 6 11 12 (m ! (s ! 10)) (m ! (s ! 11))
      (blake2b_G 0 5 10 15 (m ! (s ! 8)) (m ! (s ! 9))
      (blake2b_G 3 7 11 15 (m ! (s ! 6)) (m ! (s ! 7))
      (blake2b_G 2 6 10 14 (m ! (s ! 4)) (m ! (s ! 5))
      (blake2b_G 1 5 9 13 (m ! (s ! 2)) (m ! (s ! 3))
      (blake2b_G 0 4 8 12 (m ! (s ! 0)) (m ! (s ! 1)) v))))))))"

definition blake2b_F :: "nat list \<Rightarrow> nat list \<Rightarrow> nat \<Rightarrow> bool \<Rightarrow> nat list" where
  "blake2b_F h m t f =
    (let v0 = h @ blake2b_IV;
         v1 = v0[12 := v0 ! 12 XOR (t mod 2 ^ 64)];
         v2 = v1[13 := v1 ! 13 XOR (t div 2 ^ 64)];
         v3 = (if f then v2[14 := not64 (v2 ! 14)] else v2);
         v4 = fold (blake2b_round m) [0..<12] v3
     in map (\<lambda>i. h ! i XOR v4 ! i XOR v4 ! (i + 8)) [0..<8])"

definition le_word :: "nat list \<Rightarrow> nat" where
  "le_word bs = foldr (\<lambda>b acc. b + 256 * acc) bs 0"

definition le_bytes8 :: "nat \<Rightarrow> nat list" where
  "le_bytes8 w = map (\<lambda>i. (w div 256 ^ i) mod 256) [0..<8]"

definition block_words :: "nat list \<Rightarrow> nat list" where
  "block_words bs = map (\<lambda>i. le_word (take 8 (drop (8 * i) bs))) [0..<16]"

function blake2b_blocks :: "nat list \<Rightarrow> nat \<Rightarrow> nat list \<Rightarrow> nat list" where
  "blake2b_blocks h t d =
     (if length d \<le> 128
      then blake2b_F h (block_words (d @ replicate (128 - length d) 0)) (t + length d) True
      else blake2b_blocks (blake2b_F h (block_words (take 128 d)) (t + 128) False)
             (t + 128) (drop 128 d))"
  by pat_completeness auto
termination
  by (relation "measure (\<lambda>(h, t, d). length d)") auto

declare blake2b_blocks.simps [simp del]

definition blake2b :: "nat \<Rightarrow> nat list \<Rightarrow> nat list" where
  "blake2b nn d =
     take nn (concat (map le_bytes8
       (blake2b_blocks (blake2b_IV[0 := blake2b_IV ! 0 XOR (0x01010000 XOR nn)]) 0 d)))"

section \<open>Profile keys\<close>

text \<open>
  \<open>calculate_profile_key\<close>: the \<open>os.stat\<close> call raises when the path cannot be examined,
  and the exception leaves the function.
\<close>

definition calculate_profile_key :: "os_state \<Rightarrow> string \<Rightarrow> int result" where
  "calculate_profile_key os fpath =
     (case os_stat os fpath of
        Inl e \<Rightarrow> Inl (OSError e)
      | Inr (st_dev, st_ino) \<Rightarrow> Inr (push_bit 32 st_dev OR st_ino))"

datatype part = PStr string | PInt int

definition py_str :: "part \<Rightarrow> string" where
  "py_str p = (case p of PStr s \<Rightarrow> s | PInt i \<Rightarrow> py_str_int i)"

definition utf8_char :: "char \<Rightarrow> nat list" where
  "utf8_char c =
     (let n = (of_char c :: nat) in if n < 128 then [n] else [192 + n div 64, 128 + n mod 64])"

definition encode_utf8 :: "string \<Rightarrow> nat list" where
  "encode_utf8 s = concat (map utf8_char s)"

definition hash_update :: "nat list \<Rightarrow> nat list \<Rightarrow> nat list" where
  "hash_update h bs = h @ bs"

definition hash_digest :: "nat list \<Rightarrow> nat list" where
  "hash_digest h = blake2b 8 h"

definition from_bytes_big :: "nat list \<Rightarrow> int" where
  "from_bytes_big bs = int (foldl (\<lambda>acc b. 256 * acc + b) 0 bs)"

definition hash_to_u64 :: "part list \<Rightarrow> int" where
  "hash_to_u64 parts =
     from_bytes_big (hash_digest
       (fold (\<lambda>part h. hash_update (hash_update h (encode_utf8 (py_str part))) [0]) parts []))"

text \<open>\<open>not container_id\<close> holds for \<open>None\<close> and for the empty string.\<close>

definition calculate_scoped_profile_key :: "os_state \<Rightarrow> string \<Rightarrow> string option \<Rightarrow> int result" where
  "calculate_scoped_profile_key os fpath container_id =
     (case container_id of
        None \<Rightarrow> calculate_profile_key os fpath
      | Some cid \<Rightarrow>
          if cid = [] then calculate_profile_key os fpath
          else (case os_stat os fpath of
                  Inl e \<Rightarrow> Inl (OSError e)
                | Inr (st_dev, st_ino) \<Rightarrow> Inr (hash_to_u64 [PStr cid, PInt st_dev, PInt st_ino])))"

section \<open>Reading \<open>/proc\<close>\<close>

text \<open>
  \<open>_read_proc_file\<close> catches \<open>OSError\<close> and its subclasses; a \<open>UnicodeDecodeError\<close> is not
  one of them and leaves the function.
\<close>

definition read_proc_file :: "os_state \<Rightarrow> int \<Rightarrow> string \<Rightarrow> string option result" where
  "read_proc_file os pid path =
     (case os_read_text os (''/proc/'' @ py_str_int pid @ ''/'' @ path) of
        Inl (OSError e) \<Rightarrow> Inr None
      | Inl UnicodeDecodeError \<Rightarrow> Inl UnicodeDecodeError
      | Inr content \<Rightarrow> Inr (Some content))"

definition read_cgroup_namespace_inode :: "os_state \<Rightarrow> int \<Rightarrow> int option result" where
  "read_cgroup_namespace_inode os pid =
     (case os_readlink os (''/proc/'' @ py_str_int pid @ ''/ns/cgroup'') of
        Inl e \<Rightarrow> Inr None
      | Inr link \<Rightarrow>
          (case re_match cgroup_link_pattern False link of
             None \<Rightarrow> Inr None
           | Some groups \<Rightarrow> Inr (Some (py_int (groups ! 8)))))"

text \<open>The loop of \<open>read_cgroup_path\<close> over the lines of the file.\<close>

fun first_cgroup_path :: "string list \<Rightarrow> string option" where
  "first_cgroup_path [] = None"
| "first_cgroup_path (line # lines) =
     (let parts = py_split CHR '':'' 2 line in
      if length parts \<noteq> 3 then first_cgroup_path lines
      else (let path = py_strip (parts ! 2) in
            if path \<noteq> [] then Some path else first_cgroup_path lines))"

definition read_cgroup_path :: "os_state \<Rightarrow> int \<Rightarrow> string option result" where
  "read_cgroup_path os pid =
     (case read_proc_file os pid ''cgroup'' of
        Inl e \<Rightarrow> Inl e
      | Inr None \<Rightarrow> Inr None
      | Inr (Some content) \<Rightarrow>
          if content = [] then Inr None else Inr (first_cgroup_path (py_splitlines content)))"

section \<open>Container identifiers\<close>

definition excluded_suffixes :: "string list" where
  "excluded_suffixes = [[], ''/'', ''user.slice'', ''system.slice'', ''init.scope'']"

text \<open>The last step of \<open>derive_container_id\<close>, reached when no earlier step returned.\<close>

definition cgroupns_fallback :: "os_state \<Rightarrow> int option \<Rightarrow> string option result" where
  "cgroupns_fallback os cgroup_ns_inode =
     (case cgroup_ns_inode of
        None \<Rightarrow> Inr None
      | Some n \<Rightarrow>
          if n = 0 then Inr None
          else (case read_cgroup_namespace_inode os 1 of
                  Inl e \<Rightarrow> Inl e
                | Inr init_inode \<Rightarrow>
                    if Some n \<noteq> init_inode then Inr (Some (''cgroupns-'' @ py_str_int n))
                    else Inr None))"

definition derive_container_id ::
  "os_state \<Rightarrow> string option \<Rightarrow> int option \<Rightarrow> string option result" where
  "derive_container_id os cgroup_path cgroup_ns_inode =
     (case cgroup_path of
        None \<Rightarrow> cgroupns_fallback os cgroup_ns_inode
      | Some p \<Rightarrow>
          if p = [] then cgroupns_fallback os cgroup_ns_inode
          else (case re_findall hex_id_pattern True p of
                  m # ms \<Rightarrow> Inr (Some (py_lower (last (m # ms))))
                | [] \<Rightarrow>
                    (case re_search kube_pattern True p of
                       Some groups \<Rightarrow>
                         Inr (Some (py_lower (map (\<lambda>c. if c = CHR ''_'' then CHR ''-'' else c) (groups ! 3))))
                     | None \<Rightarrow>
                         (let suffix = py_rsplit1_last CHR ''/'' p in
                          if suffix \<noteq> [] \<and> suffix \<notin> set excluded_suffixes then Inr (Some suffix)
                          else cgroupns_fallback os cgroup_ns_inode))))"

section \<open>A concrete system\<close>

text \<open>
  A host whose init process is in cgroup namespace 4026531835, with one executable and
  a few processes. Process 80 is in a cgroup whose directory name holds the byte
  \<open>0xFF\<close>, so its membership file is not valid UTF-8 and reading it as text raises
  \<open>UnicodeDecodeError\<close>; process 81 is in the cgroup \<open>/a<FF>b\<close>, whose name holds a form
  feed. (The kernel refuses only the newline in a cgroup name.)
\<close>

definition host :: os_state where
  "host =
     \<lparr>os_stat = (\<lambda>p. if p = ''/usr/bin/cat'' then Inr (2049, 131) else Inl FileNotFoundError),
      os_readlink = (\<lambda>p.
         if p = ''/proc/1/ns/cgroup'' then Inr ''cgroup:[4026531835]''
         else if p = ''/proc/77/ns/cgroup'' then Inr ''cgroup:[4026532512]''
         else if p = ''/proc/78/ns/cgroup'' then Inr ''net:[4026531840]''
         else if p = ''/proc/79/ns/cgroup'' then Inl PermissionError
         else Inl FileNotFoundError),
      os_read_text = (\<lambda>p.
         if p = ''/proc/1/cgroup'' then Inr (''0::/init.scope'' @ [CHR 0x0A])
         else if p = ''/proc/77/cgroup''
           then Inr (''12:pids'' @ [CHR 0x0A] @ ''1:name=systemd: '' @ [CHR 0x0A] @
                     ''0::/machine.slice/a:b '' @ [CHR 0x0A])
         else if p = ''/proc/79/cgroup'' then Inl (OSError PermissionError)
         else if p = ''/proc/80/cgroup'' then Inl UnicodeDecodeError
         else if p = ''/proc/81/cgroup'' then Inr (''0::/a'' @ [CHR 0x0C] @ ''b'' @ [CHR 0x0A])
         else Inl (OSError FileNotFoundError))\<rparr>"

section \<open>Notions of the specification\<close>

text \<open>
  A hexadecimal character, without regard to case; the number of hexadecimal characters
  a string starts with; a string with \<open>n\<close> hexadecimal characters in a row somewhere; and
  the length of the match of \<open>hex_id_pattern\<close> at the start of a string (0 for none).
\<close>

definition is_hex :: "char \<Rightarrow> bool" where
  "is_hex c =
     (let n = (of_char c :: nat) in
      (48 \<le> n \<and> n \<le> 57) \<or> (65 \<le> n \<and> n \<le> 70) \<or> (97 \<le> n \<and> n \<le> 102))"

definition hexrun :: "string \<Rightarrow> nat" where
  "hexrun s = length (takeWhile is_hex s)"

fun has_hex_block :: "nat \<Rightarrow> string \<Rightarrow> bool" where
  "has_hex_block n [] = (n = 0)"
| "has_hex_block n (c # cs) = (n \<le> hexrun (c # cs) \<or> has_hex_block n cs)"

definition hex_match_len :: "string \<Rightarrow> nat" where
  "hex_match_len s =
     (if 64 \<le> hexrun s then 64 else if 32 \<le> hexrun s then 32 else if 12 \<le> hexrun s then 12 else 0)"

text \<open>
  A decimal digit; a character of the pod marker's class, \<open>[0-9a-f-]\<close> without regard to
  case; and the number of such characters a string starts with, 36 at most.
\<close>

definition is_digit :: "char \<Rightarrow> bool" where
  "is_digit c = (let n = (of_char c :: nat) in 48 \<le> n \<and> n \<le> 57)"

definition is_pod_char :: "char \<Rightarrow> bool" where
  "is_pod_char c = (is_hex c \<or> c = CHR ''-'')"

definition podrun :: "string \<Rightarrow> nat" where
  "podrun s = min 36 (length (takeWhile is_pod_char s))"

text \<open>
  The mixing function \<open>G\<close> of BLAKE2b as a function of the four words it changes: the
  words at the indices \<open>a\<close>, \<open>b\<close>, \<open>c\<close>, \<open>d\<close> before, and after.
\<close>

definition mix4 :: "nat \<Rightarrow> nat \<Rightarrow> nat \<Rightarrow> nat \<Rightarrow> nat \<Rightarrow> nat \<Rightarrow> nat \<times> nat \<times> nat \<times> nat" where
  "mix4 a b c d x y =
     (let a1 = add64 (add64 a b) x;
          d1 = rotr64 32 (d XOR a1);
          c1 = add64 c d1;
          b1 = rotr64 24 (b XOR c1);
          a2 = add64 (add64 a1 b1) y;
          d2 = rotr64 16 (d1 XOR a2);
          c2 = add64 c1 d2;
          b2 = rotr64 63 (b1 XOR c2)
      in (a2, b2, c2, d2))"

section \<open>Profile keys: theorems\<close>

text \<open>
  C1. For every file path whose filesystem status yields device id \<open>d\<close> and inode number
  \<open>i\<close>, \<open>calculate_profile_key\<close> returns exactly \<open>d << 32 | i\<close>.
\<close>

theorem calculate_profile_key_value:
  assumes "os_stat os fpath = Inr (d, i)"
  shows "calculate_profile_key os fpath = Inr (push_bit 32 d OR i)"
  using assms by (simp add: calculate_profile_key_def)

theorem calculate_profile_key_value_witness:
  "os_stat host ''/usr/bin/cat'' = Inr (2049, 131) \<and>
   calculate_profile_key host ''/usr/bin/cat'' = Inr 8800387989635"
proof -
  have st: "os_stat host ''/usr/bin/cat'' = Inr (2049, 131)"
    by (simp add: host_def)
  have "push_bit 32 (2049 :: int) OR 131 = 8800387989635"
    by simp
  with calculate_profile_key_value [OF st] st show ?thesis
    by simp
qed

text \<open>
  C4. For every path, \<open>calculate_scoped_profile_key(path, None)\<close> equals
  \<open>calculate_profile_key(path)\<close>: the same key when the file can be examined, the same
  exception when it cannot.
\<close>

theorem scoped_key_without_container:
  "calculate_scoped_profile_key os fpath None = calculate_profile_key os fpath"
  by (simp add: calculate_scoped_profile_key_def)

text \<open>
  C10. For every path, \<open>calculate_scoped_profile_key(path, "")\<close> returns
  \<open>calculate_profile_key(path)\<close>: the empty string is treated as an absent container id,
  and no hash is computed.
\<close>

theorem scoped_key_empty_container:
  "calculate_scoped_profile_key os fpath (Some []) = calculate_profile_key os fpath"
  by (simp add: calculate_scoped_profile_key_def)

section \<open>The patterns, characterised\<close>

subsection \<open>Characters\<close>

lemma char_eq_of_char: "(c = d) = ((of_char c :: nat) = of_char d)"
  by simp

lemma of_char_less_256: "(of_char c :: nat) < 256"
  by (cases c) (simp add: of_char_def horner_sum_eq_sum)

lemma mem_hex_class:
  "c \<in> set hex_class \<longleftrightarrow>
     (48 \<le> (of_char c :: nat) \<and> (of_char c :: nat) \<le> 57) \<or>
     (97 \<le> (of_char c :: nat) \<and> (of_char c :: nat) \<le> 102)"
  unfolding hex_class_def
  apply (simp add: char_eq_of_char [of c] del: of_char_eq_iff)
  apply arith
  done

lemma lower_hex_class: "map py_lower_char hex_class = hex_class"
  by (simp add: hex_class_def py_lower_char_def)

lemma cls_mem_hex: "cls_mem True hex_class c = is_hex c"
  using of_char_less_256 [of c]
  apply (simp add: cls_mem_def lower_hex_class is_hex_def py_lower_char_def mem_hex_class Let_def del: set_map)
  apply arith
  done

lemma cls_mem_hex_fun: "cls_mem True hex_class = is_hex"
  by (rule ext) (rule cls_mem_hex)

subsection \<open>Greedy repetition\<close>

lemma first_some_rev_upt:
  assumes "\<And>k. f k \<noteq> None"
  shows "first_some f (rev [m ..< Suc n]) = (if m \<le> n then f n else None)"
proof (cases "m \<le> n")
  case True
  then have "rev [m ..< Suc n] = n # rev [m ..< n]"
    by simp
  moreover obtain r where "f n = Some r"
    using assms [of n] by auto
  ultimately show ?thesis
    using True by simp
next
  case False
  then show ?thesis
    by simp
qed

lemma match_last_atom:
  "match_atoms [a] ic s =
     (if lo a \<le> run_length ic a s then Some [take (run_length ic a s) s] else None)"
proof -
  have "match_atoms [a] ic s = first_some (\<lambda>k. Some [take k s]) (rev [lo a ..< Suc (run_length ic a s)])"
    by simp
  also have "\<dots> = (if lo a \<le> run_length ic a s then Some [take (run_length ic a s) s] else None)"
    by (rule first_some_rev_upt) simp
  finally show ?thesis .
qed

lemma match_lit_atom:
  "match_atoms (\<lparr>cls = [x], lo = Suc 0, hi = Some (Suc 0)\<rparr> # as) ic s =
     (case s of
        [] \<Rightarrow> None
      | c # cs \<Rightarrow>
          if cls_mem ic [x] c
          then (case match_atoms as ic cs of None \<Rightarrow> None | Some caps \<Rightarrow> Some ([c] # caps))
          else None)"
proof (cases s)
  case Nil
  then show ?thesis
    by (simp add: run_length_def)
next
  case (Cons c cs)
  show ?thesis
  proof (cases "cls_mem ic [x] c")
    case True
    then have "run_length ic \<lparr>cls = [x], lo = Suc 0, hi = Some (Suc 0)\<rparr> s = Suc 0"
      by (simp add: run_length_def Cons min_def)
    then show ?thesis
      using True Cons by (simp split: option.split)
  next
    case False
    then have "run_length ic \<lparr>cls = [x], lo = Suc 0, hi = Some (Suc 0)\<rparr> s = 0"
      by (simp add: run_length_def Cons)
    then show ?thesis
      using False Cons by simp
  qed
qed

subsection \<open>The pattern of hexadecimal identifiers\<close>

lemma upt_single: "rev [n ..< Suc (min n m)] = (if n \<le> m then [n] else [])"
  by (auto simp: min_def)

lemma match_hex_id:
  "match_alts hex_id_pattern True s =
     (if hex_match_len s = 0 then None else Some [take (hex_match_len s) s])"
  by (simp add: match_alts_def hex_id_pattern_def run_length_def cls_mem_hex_fun hexrun_def
        hex_match_len_def upt_single del: upt_Suc)

declare re_findall.simps [simp del]

lemma hexrun_le: "hexrun s \<le> length s"
  by (simp add: hexrun_def length_takeWhile_le)

lemma hex_match_len_le: "hex_match_len s \<le> hexrun s"
  by (simp add: hex_match_len_def)

lemma hex_match_len_cases: "hex_match_len s \<in> {0, 12, 32, 64}"
  by (simp add: hex_match_len_def)

lemma findall_hex:
  "re_findall hex_id_pattern True s =
     (if s = [] then []
      else if hex_match_len s = 0 then re_findall hex_id_pattern True (tl s)
      else take (hex_match_len s) s # re_findall hex_id_pattern True (drop (hex_match_len s) s))"
proof (cases s)
  case Nil
  then show ?thesis
    by (simp add: re_findall.simps match_hex_id hex_match_len_def hexrun_def)
next
  case (Cons c cs)
  have "hex_match_len s \<le> length s"
    using hex_match_len_le [of s] hexrun_le [of s] by simp
  then show ?thesis
    unfolding Cons by (simp add: re_findall.simps match_hex_id min_def)
qed

lemma hexrun_all: "list_all is_hex s \<Longrightarrow> hexrun s = length s"
  by (simp add: hexrun_def list_all_iff takeWhile_eq_all_conv [THEN iffD2])

lemma take_hexrun: "k \<le> hexrun s \<Longrightarrow> list_all is_hex (take k s)"
proof -
  assume "k \<le> hexrun s"
  then have "take k s = take k (takeWhile is_hex s)"
    by (metis hexrun_def take_all_iff takeWhile_dropWhile_id take_append append_Nil2 diff_is_0_eq' take_0)
  then show ?thesis
    by (auto simp: list_all_iff dest!: in_set_takeD set_takeWhileD)
qed


lemma has_hex_block_mono: "m \<le> n \<Longrightarrow> has_hex_block n s \<Longrightarrow> has_hex_block m s"
  by (induction s) (auto simp: hexrun_def)

lemma findall_hex_nonempty: "re_findall hex_id_pattern True s \<noteq> [] \<longleftrightarrow> has_hex_block 12 s"
proof (induction s)
  case Nil
  show ?case
    by (subst findall_hex) simp
next
  case (Cons c cs)
  have "hex_match_len (c # cs) = 0 \<longleftrightarrow> \<not> 12 \<le> hexrun (c # cs)"
    by (simp add: hex_match_len_def)
  with Cons show ?case
    by (subst findall_hex) simp
qed

lemma has_hex_block_iff:
  "has_hex_block n s \<longleftrightarrow> (\<exists>pre blk post. s = pre @ blk @ post \<and> length blk = n \<and> list_all is_hex blk)"
proof
  show "has_hex_block n s \<Longrightarrow> \<exists>pre blk post. s = pre @ blk @ post \<and> length blk = n \<and> list_all is_hex blk"
  proof (induction s)
    case Nil
    then show ?case by simp
  next
    case (Cons c cs)
    show ?case
    proof (cases "n \<le> hexrun (c # cs)")
      case True
      then have "c # cs = [] @ take n (c # cs) @ drop n (c # cs)" "length (take n (c # cs)) = n"
        "list_all is_hex (take n (c # cs))"
        using hexrun_le [of "c # cs"] by (simp_all add: take_hexrun)
      then show ?thesis
        by blast
    next
      case False
      with Cons.prems have "has_hex_block n cs"
        by simp
      from Cons.IH [OF this] obtain pre blk post
        where "cs = pre @ blk @ post" "length blk = n" "list_all is_hex blk"
        by blast
      then have "c # cs = (c # pre) @ blk @ post \<and> length blk = n \<and> list_all is_hex blk"
        by simp
      then show ?thesis
        by blast
    qed
  qed
next
  assume "\<exists>pre blk post. s = pre @ blk @ post \<and> length blk = n \<and> list_all is_hex blk"
  then obtain pre blk post where s: "s = pre @ blk @ post" and n: "length blk = n"
    and h: "list_all is_hex blk"
    by blast
  have run: "n \<le> hexrun (blk @ post)"
  proof -
    have "takeWhile is_hex (blk @ post) = blk @ takeWhile is_hex post"
      using h by (simp add: list_all_iff takeWhile_append2)
    then show ?thesis
      using n by (simp add: hexrun_def)
  qed
  have "has_hex_block n (blk @ post)"
  proof (cases "blk @ post")
    case Nil
    with n show ?thesis by simp
  next
    case (Cons c cs)
    with run show ?thesis by simp
  qed
  then show "has_hex_block n s"
    unfolding s by (induction pre) simp_all
qed

lemma findall_hex_last:
  "re_findall hex_id_pattern True s \<noteq> [] \<Longrightarrow>
     \<exists>pre post. s = pre @ last (re_findall hex_id_pattern True s) @ post \<and>
       re_findall hex_id_pattern True post = [] \<and>
       length (last (re_findall hex_id_pattern True s)) \<in> {12, 32, 64} \<and>
       list_all is_hex (last (re_findall hex_id_pattern True s))"
proof (induction s rule: length_induct)
  case (1 s)
  let ?f = "re_findall hex_id_pattern True"
  let ?k = "hex_match_len s"
  from "1.prems" have ne: "s \<noteq> []"
    by (subst (asm) findall_hex) (simp split: if_splits)
  show ?case
  proof (cases "?k = 0")
    case True
    then have eq: "?f s = ?f (tl s)"
      using ne by (subst findall_hex) simp
    with "1.prems" have "?f (tl s) \<noteq> []"
      by simp
    moreover have "length (tl s) < length s"
      using ne by simp
    ultimately obtain pre post where "tl s = pre @ last (?f (tl s)) @ post" "?f post = []"
      "length (last (?f (tl s))) \<in> {12, 32, 64}" "list_all is_hex (last (?f (tl s)))"
      using "1.IH" by blast
    then have "s = (hd s # pre) @ last (?f s) @ post \<and> ?f post = [] \<and>
       length (last (?f s)) \<in> {12, 32, 64} \<and> list_all is_hex (last (?f s))"
      using ne eq by (cases s) simp_all
    then show ?thesis
      by blast
  next
    case False
    then have eq: "?f s = take ?k s # ?f (drop ?k s)"
      using ne by (subst findall_hex) simp
    have k: "?k \<in> {12, 32, 64}" "?k \<le> hexrun s" "?k \<le> length s"
      using False hex_match_len_cases [of s] hex_match_len_le [of s] hexrun_le [of s] by auto
    show ?thesis
    proof (cases "?f (drop ?k s) = []")
      case True
      then have "s = [] @ last (?f s) @ drop ?k s \<and> ?f (drop ?k s) = [] \<and>
         length (last (?f s)) \<in> {12, 32, 64} \<and> list_all is_hex (last (?f s))"
        using eq k by (simp add: take_hexrun min_def)
      then show ?thesis
        by blast
    next
      case nonempty: False
      have "length (drop ?k s) < length s"
        using k ne by auto
      with nonempty obtain pre post where "drop ?k s = pre @ last (?f (drop ?k s)) @ post"
        "?f post = []" "length (last (?f (drop ?k s))) \<in> {12, 32, 64}"
        "list_all is_hex (last (?f (drop ?k s)))"
        using "1.IH" by blast
      moreover have "last (?f s) = last (?f (drop ?k s))"
        using eq nonempty by simp
      moreover have "s = take ?k s @ drop ?k s"
        by simp
      ultimately have "s = (take ?k s @ pre) @ last (?f s) @ post \<and> ?f post = [] \<and>
         length (last (?f s)) \<in> {12, 32, 64} \<and> list_all is_hex (last (?f s))"
        by (metis append.assoc)
      then show ?thesis
        by blast
    qed
  qed
qed


lemma findall_hex_Nil: "re_findall hex_id_pattern True [] = []"
  by (subst findall_hex) simp

lemma findall_hex_Cons:
  "re_findall hex_id_pattern True (c # cs) =
     (if hex_match_len (c # cs) = 0 then re_findall hex_id_pattern True cs
      else take (hex_match_len (c # cs)) (c # cs) #
           re_findall hex_id_pattern True (drop (hex_match_len (c # cs)) (c # cs)))"
  by (subst findall_hex) simp

lemmas hex_eval = findall_hex_Nil findall_hex_Cons hex_match_len_def hexrun_def is_hex_def

lemmas lower_eval = py_lower_def py_lower_char_def

lemma findall_docker_id:
  assumes "length cid = 64" "list_all is_hex cid"
  shows "re_findall hex_id_pattern True (''/docker/'' @ cid) = [cid]"
proof -
  have "hex_match_len cid = 64"
    using assms by (simp add: hex_match_len_def hexrun_all)
  moreover have "cid \<noteq> []"
    using assms by auto
  ultimately have "re_findall hex_id_pattern True cid = [cid]"
    using assms by (subst findall_hex) (simp add: findall_hex_Nil)
  then show ?thesis
    by (simp add: hex_eval)
qed

subsection \<open>The pattern of the pod marker\<close>

lemma cls_mem_single: "cls_mem True [x] c = (py_lower_char c = py_lower_char x)"
  by (simp add: cls_mem_def)

lemma lower_p_o_d:
  "py_lower_char CHR ''p'' = CHR ''p''" "py_lower_char CHR ''o'' = CHR ''o''"
  "py_lower_char CHR ''d'' = CHR ''d''" "py_lower_char CHR ''-'' = CHR ''-''"
  by (simp_all add: py_lower_char_def)

lemma py_lower_char_eq_dash: "py_lower_char c = CHR ''-'' \<longleftrightarrow> c = CHR ''-''"
  using of_char_less_256 [of c]
  by (simp add: py_lower_char_def Let_def char_eq_of_char [of _ "CHR ''-''"] del: of_char_eq_iff)

lemma cls_mem_pod: "cls_mem True (hex_class @ ''-'') c = is_pod_char c"
proof -
  have "cls_mem True (hex_class @ ''-'') c = (cls_mem True hex_class c \<or> py_lower_char c = CHR ''-'')"
    by (auto simp: cls_mem_def lower_p_o_d)
  then show ?thesis
    by (simp add: cls_mem_hex is_pod_char_def py_lower_char_eq_dash)
qed

lemma match_kube:
  "match_alts kube_pattern True s =
     (case s of
        c1 # c2 # c3 # rest \<Rightarrow>
          if py_lower_char c1 = CHR ''p'' \<and> py_lower_char c2 = CHR ''o'' \<and>
             py_lower_char c3 = CHR ''d'' \<and> 32 \<le> podrun rest
          then Some [[c1], [c2], [c3], take (podrun rest) rest]
          else None
      | _ \<Rightarrow> None)"
proof -
  have cls: "cls_mem True (hex_class @ ''-'') = is_pod_char"
    by (rule ext) (rule cls_mem_pod)
  show ?thesis
    by (simp add: match_alts_def kube_pattern_def lit_def match_lit_atom match_last_atom
          cls_mem_single lower_p_o_d run_length_def cls podrun_def
          split: list.split del: match_atoms.simps)
qed

lemmas kube_eval = match_kube podrun_def is_pod_char_def is_hex_def py_lower_char_def


subsection \<open>The pattern of the namespace link\<close>

lemma first_some_rev_upt_last:
  assumes "\<And>k. m \<le> k \<Longrightarrow> k < n \<Longrightarrow> f k = None"
  shows "first_some f (rev [m ..< Suc n]) = (if m \<le> n then f n else None)"
proof -
  have none: "first_some f (rev [m ..< j]) = None" if "j \<le> n" for j
    using that
  proof (induction j)
    case 0
    then show ?case by simp
  next
    case (Suc j)
    then show ?case
      using assms [of j] by auto
  qed
  show ?thesis
  proof (cases "m \<le> n")
    case True
    then have "rev [m ..< Suc n] = n # rev [m ..< n]"
      by simp
    then show ?thesis
      using True none [of n] by (simp split: option.split)
  next
    case False
    then show ?thesis by simp
  qed
qed

lemma cls_mem_digit: "cls_mem False ''0123456789'' c = is_digit c"
  apply (simp add: cls_mem_def is_digit_def Let_def char_eq_of_char [of c] del: of_char_eq_iff)
  apply arith
  done

lemma cls_mem_exact: "cls_mem False [x] c = (c = x)"
  by (simp add: cls_mem_def)

lemma not_digit_bracket: "\<not> is_digit CHR '']''"
  by (simp add: is_digit_def)

lemma match_digits_bracket:
  "match_atoms [\<lparr>cls = ''0123456789'', lo = Suc 0, hi = None\<rparr>,
                \<lparr>cls = '']'', lo = Suc 0, hi = Some (Suc 0)\<rparr>] False s =
     (if takeWhile is_digit s \<noteq> [] \<and> dropWhile is_digit s \<noteq> [] \<and>
         hd (dropWhile is_digit s) = CHR '']''
      then Some [takeWhile is_digit s, '']''] else None)"
proof -
  let ?n = "length (takeWhile is_digit s)"
  let ?f = "\<lambda>k. case match_atoms [\<lparr>cls = '']'', lo = Suc 0, hi = Some (Suc 0)\<rparr>] False (drop k s) of
                  None \<Rightarrow> None | Some caps \<Rightarrow> Some (take k s # caps)"
  have digit: "cls_mem False ''0123456789'' = is_digit"
    by (rule ext) (rule cls_mem_digit)
  have run: "run_length False \<lparr>cls = ''0123456789'', lo = Suc 0, hi = None\<rparr> s = ?n"
    by (simp add: run_length_def digit)
  have early: "?f k = None" if "k < ?n" for k
  proof -
    from that have "k < length s"
      using length_takeWhile_le [of is_digit s] by simp
    then obtain c cs where d: "drop k s = c # cs"
      by (metis Cons_nth_drop_Suc)
    have "c = s ! k"
      using d \<open>k < length s\<close> by (metis nth_via_drop)
    also have "\<dots> = takeWhile is_digit s ! k"
      using that by (simp add: takeWhile_nth)
    finally have "is_digit c"
      using that by (metis nth_mem set_takeWhileD)
    then have "c \<noteq> CHR '']''"
      using not_digit_bracket by auto
    then show ?thesis
      by (simp add: d match_lit_atom cls_mem_exact del: match_atoms.simps)
  qed
  have "match_atoms [\<lparr>cls = ''0123456789'', lo = Suc 0, hi = None\<rparr>,
                \<lparr>cls = '']'', lo = Suc 0, hi = Some (Suc 0)\<rparr>] False s =
        first_some ?f (rev [Suc 0 ..< Suc ?n])"
    by (simp only: match_atoms.simps(2) run atom.simps)
  also have "\<dots> = (if Suc 0 \<le> ?n then ?f ?n else None)"
    by (rule first_some_rev_upt_last) (rule early)
  also have "\<dots> = (if takeWhile is_digit s \<noteq> [] \<and> dropWhile is_digit s \<noteq> [] \<and>
         hd (dropWhile is_digit s) = CHR '']''
      then Some [takeWhile is_digit s, '']''] else None)"
  proof -
    have "drop ?n s = dropWhile is_digit s" "take ?n s = takeWhile is_digit s"
      by (rule dropWhile_eq_drop [symmetric], rule takeWhile_eq_take [symmetric])
    moreover have "Suc 0 \<le> ?n \<longleftrightarrow> takeWhile is_digit s \<noteq> []"
      by (cases "takeWhile is_digit s") simp_all
    ultimately show ?thesis
      by (cases "dropWhile is_digit s")
        (simp_all add: match_lit_atom cls_mem_exact del: match_atoms.simps(2))
  qed
  finally show ?thesis .
qed

lemma match_cgroup_link:
  "re_match cgroup_link_pattern False link =
     (if take 8 link = ''cgroup:['' \<and> takeWhile is_digit (drop 8 link) \<noteq> [] \<and>
         dropWhile is_digit (drop 8 link) \<noteq> [] \<and> hd (dropWhile is_digit (drop 8 link)) = CHR '']''
      then Some [''c'', ''g'', ''r'', ''o'', ''u'', ''p'', '':'', ''['',
                 takeWhile is_digit (drop 8 link), '']'']
      else None)"
proof -
  have "re_match cgroup_link_pattern False link =
     (case link of
        c1 # c2 # c3 # c4 # c5 # c6 # c7 # c8 # rest \<Rightarrow>
          if [c1, c2, c3, c4, c5, c6, c7, c8] = ''cgroup:['' \<and> takeWhile is_digit rest \<noteq> [] \<and>
             dropWhile is_digit rest \<noteq> [] \<and> hd (dropWhile is_digit rest) = CHR '']''
          then Some [''c'', ''g'', ''r'', ''o'', ''u'', ''p'', '':'', ''['', takeWhile is_digit rest, '']'']
          else None
      | _ \<Rightarrow> None)"
    by (simp add: re_match_def match_alts_def cgroup_link_pattern_def lit_def match_lit_atom
          match_digits_bracket cls_mem_exact split: list.split del: match_atoms.simps)
  also have "\<dots> = (if take 8 link = ''cgroup:['' \<and> takeWhile is_digit (drop 8 link) \<noteq> [] \<and>
         dropWhile is_digit (drop 8 link) \<noteq> [] \<and> hd (dropWhile is_digit (drop 8 link)) = CHR '']''
      then Some [''c'', ''g'', ''r'', ''o'', ''u'', ''p'', '':'', ''['',
                 takeWhile is_digit (drop 8 link), '']'']
      else None)"
    by (simp split: list.split)
  finally show ?thesis .
qed

lemma cgroup_link_matches_iff:
  "re_match cgroup_link_pattern False link \<noteq> None \<longleftrightarrow>
     (\<exists>ds rest. link = ''cgroup:['' @ ds @ '']'' @ rest \<and> ds \<noteq> [] \<and> list_all is_digit ds)"
proof
  assume "re_match cgroup_link_pattern False link \<noteq> None"
  then have m: "take 8 link = ''cgroup:[''" "takeWhile is_digit (drop 8 link) \<noteq> []"
    "dropWhile is_digit (drop 8 link) \<noteq> []" "hd (dropWhile is_digit (drop 8 link)) = CHR '']''"
    by (simp_all add: match_cgroup_link split: if_splits)
  let ?ds = "takeWhile is_digit (drop 8 link)"
  have "link = take 8 link @ drop 8 link"
    by simp
  also have "drop 8 link = ?ds @ dropWhile is_digit (drop 8 link)"
    by simp
  also have "dropWhile is_digit (drop 8 link) = '']'' @ tl (dropWhile is_digit (drop 8 link))"
    using m(3,4) by (cases "dropWhile is_digit (drop 8 link)") simp_all
  finally have "link = ''cgroup:['' @ ?ds @ '']'' @ tl (dropWhile is_digit (drop 8 link))"
    using m(1) by simp
  moreover have "list_all is_digit ?ds"
    by (auto simp: list_all_iff dest: set_takeWhileD)
  ultimately show "\<exists>ds rest. link = ''cgroup:['' @ ds @ '']'' @ rest \<and> ds \<noteq> [] \<and> list_all is_digit ds"
    using m(2) by blast
next
  assume "\<exists>ds rest. link = ''cgroup:['' @ ds @ '']'' @ rest \<and> ds \<noteq> [] \<and> list_all is_digit ds"
  then obtain ds rest where l: "link = ''cgroup:['' @ ds @ '']'' @ rest" and ds: "ds \<noteq> []"
    "list_all is_digit ds"
    by blast
  have "takeWhile is_digit (ds @ '']'' @ rest) = ds" "dropWhile is_digit (ds @ '']'' @ rest) = '']'' @ rest"
    using ds(2) not_digit_bracket by (simp_all add: list_all_iff takeWhile_append2 dropWhile_append2)
  then show "re_match cgroup_link_pattern False link \<noteq> None"
    using ds(1) by (simp add: match_cgroup_link l)
qed

lemmas link_eval = match_cgroup_link is_digit_def py_int_def digit_value_def

section \<open>Reading \<open>/proc\<close>: theorems\<close>

subsection \<open>Evaluating decimal numerals and the link pattern\<close>

lemma digit_char_eval:
  "digit_char 0 = CHR ''0''" "digit_char 1 = CHR ''1''" "digit_char 2 = CHR ''2''"
  "digit_char 3 = CHR ''3''" "digit_char 4 = CHR ''4''" "digit_char 5 = CHR ''5''"
  "digit_char 6 = CHR ''6''" "digit_char 7 = CHR ''7''" "digit_char 8 = CHR ''8''"
  "digit_char 9 = CHR ''9''" "digit_char (Suc 0) = CHR ''1''"
  unfolding digit_char_def char_of_def by (simp_all add: bit_0)

lemmas str_int_eval = py_str_int_def nat_digits.simps digit_char_eval

lemma py_str_int_1: "py_str_int 1 = ''1''"
  by (simp add: str_int_eval)

lemma read_ns_inode_total: "\<exists>r. read_cgroup_namespace_inode os pid = Inr r"
  by (simp add: read_cgroup_namespace_inode_def split: sum.split option.split)

lemma host_init_inode: "read_cgroup_namespace_inode host 1 = Inr (Some 4026531835)"
  by (simp add: read_cgroup_namespace_inode_def py_str_int_1 host_def link_eval)

subsection \<open>The namespace inode\<close>

text \<open>
  C7. For every pid, \<open>read_cgroup_namespace_inode(pid)\<close> never raises: it returns a value
  for every state of the system and every pid, and that value is absent when reading the
  link fails with any operating-system error (no such process, no access) and when the
  link's target does not match \<open>cgroup:[<digits>]\<close>.
\<close>

theorem read_cgroup_namespace_inode_never_raises:
  "(\<exists>r. read_cgroup_namespace_inode os pid = Inr r) \<and>
   (\<forall>e. os_readlink os (''/proc/'' @ py_str_int pid @ ''/ns/cgroup'') = Inl e \<longrightarrow>
        read_cgroup_namespace_inode os pid = Inr None) \<and>
   (\<forall>link. os_readlink os (''/proc/'' @ py_str_int pid @ ''/ns/cgroup'') = Inr link \<longrightarrow>
           \<not> (\<exists>ds rest. link = ''cgroup:['' @ ds @ '']'' @ rest \<and> ds \<noteq> [] \<and> list_all is_digit ds) \<longrightarrow>
           read_cgroup_namespace_inode os pid = Inr None)"
proof -
  have "re_match cgroup_link_pattern False link = None"
    if "\<not> (\<exists>ds rest. link = ''cgroup:['' @ ds @ '']'' @ rest \<and> ds \<noteq> [] \<and> list_all is_digit ds)"
    for link
    using that cgroup_link_matches_iff [of link] by blast
  then show ?thesis
    by (auto simp: read_cgroup_namespace_inode_def split: sum.split option.split)
qed

theorem read_cgroup_namespace_inode_never_raises_witness:
  "os_readlink host ''/proc/5/ns/cgroup'' = Inl FileNotFoundError \<and>
   read_cgroup_namespace_inode host 5 = Inr None \<and>
   os_readlink host ''/proc/79/ns/cgroup'' = Inl PermissionError \<and>
   read_cgroup_namespace_inode host 79 = Inr None \<and>
   os_readlink host ''/proc/78/ns/cgroup'' = Inr ''net:[4026531840]'' \<and>
   \<not> (\<exists>ds rest. ''net:[4026531840]'' = ''cgroup:['' @ ds @ '']'' @ rest \<and> ds \<noteq> [] \<and>
                 list_all is_digit ds) \<and>
   read_cgroup_namespace_inode host 78 = Inr None"
proof -
  have p5: "''/proc/'' @ py_str_int 5 @ ''/ns/cgroup'' = ''/proc/5/ns/cgroup''"
    by (simp add: str_int_eval)
  have p79: "''/proc/'' @ py_str_int 79 @ ''/ns/cgroup'' = ''/proc/79/ns/cgroup''"
    by (simp add: str_int_eval)
  have p78: "''/proc/'' @ py_str_int 78 @ ''/ns/cgroup'' = ''/proc/78/ns/cgroup''"
    by (simp add: str_int_eval)
  have l5: "os_readlink host ''/proc/5/ns/cgroup'' = Inl FileNotFoundError"
    by (simp add: host_def)
  have l79: "os_readlink host ''/proc/79/ns/cgroup'' = Inl PermissionError"
    by (simp add: host_def)
  have l78: "os_readlink host ''/proc/78/ns/cgroup'' = Inr ''net:[4026531840]''"
    by (simp add: host_def)
  have nomatch: "\<not> (\<exists>ds rest. ''net:[4026531840]'' = ''cgroup:['' @ ds @ '']'' @ rest \<and>
      ds \<noteq> [] \<and> list_all is_digit ds)"
    by simp
  from read_cgroup_namespace_inode_never_raises [of host 5] l5
  have r5: "read_cgroup_namespace_inode host 5 = Inr None"
    unfolding p5 by blast
  from read_cgroup_namespace_inode_never_raises [of host 79] l79
  have r79: "read_cgroup_namespace_inode host 79 = Inr None"
    unfolding p79 by blast
  from read_cgroup_namespace_inode_never_raises [of host 78] l78 nomatch
  have r78: "read_cgroup_namespace_inode host 78 = Inr None"
    unfolding p78 by blast
  from l5 r5 l79 r79 l78 nomatch r78 show ?thesis
    by blast
qed

subsection \<open>The membership path\<close>

lemma py_split_two:
  "py_split sep 2 s =
     (if sep \<in> set s
      then takeWhile (\<lambda>c. c \<noteq> sep) s #
           py_split sep (Suc 0) (tl (dropWhile (\<lambda>c. c \<noteq> sep) s))
      else [s])"
  by (simp only: numeral_2_eq_2 py_split.simps)

text \<open>
  C8. The claim is that \<open>read_cgroup_path\<close> returns the path field of the first line with
  a usable path and returns absent when the file cannot be read. Two inputs on which the
  function does otherwise. For process 80 the membership file cannot be decoded as
  UTF-8: the \<open>UnicodeDecodeError\<close> is not an \<open>OSError\<close>, is not caught and leaves
  \<open>read_cgroup_path\<close>, where the claim has absent. For process 81 the file is the one line
  \<open>0::/a<FF>b\<close>: \<open>str.splitlines\<close> breaks a line at a form feed too, and the function
  returns \<open>/a\<close>, where the path field of the line is \<open>/a<FF>b\<close>.
\<close>

theorem read_cgroup_path_divergences:
  "os_read_text host ''/proc/80/cgroup'' = Inl UnicodeDecodeError \<and>
   read_cgroup_path host 80 = Inl UnicodeDecodeError \<and>
   os_read_text host ''/proc/81/cgroup'' = Inr (''0::/a'' @ [CHR 0x0C] @ ''b'' @ [CHR 0x0A]) \<and>
   read_cgroup_path host 81 = Inr (Some ''/a'')"
proof -
  have p80: "''/proc/'' @ py_str_int 80 @ ''/'' @ ''cgroup'' = ''/proc/80/cgroup''"
    by (simp add: str_int_eval)
  have p81: "''/proc/'' @ py_str_int 81 @ ''/'' @ ''cgroup'' = ''/proc/81/cgroup''"
    by (simp add: str_int_eval)
  have t80: "os_read_text host ''/proc/80/cgroup'' = Inl UnicodeDecodeError"
    by (simp add: host_def)
  have t81: "os_read_text host ''/proc/81/cgroup'' = Inr (''0::/a'' @ [CHR 0x0C] @ ''b'' @ [CHR 0x0A])"
    by (simp add: host_def)
  have r80: "read_cgroup_path host 80 = Inl UnicodeDecodeError"
    unfolding read_cgroup_path_def read_proc_file_def p80 t80 by simp
  have r81: "read_cgroup_path host 81 = Inr (Some ''/a'')"
    unfolding read_cgroup_path_def read_proc_file_def p81 t81
    by (simp add: py_splitlines_def is_linebreak_def py_split_two py_strip_def is_space_def Let_def)
  from t80 r80 t81 r81 show ?thesis
    by blast
qed

section \<open>Container identifiers: theorems\<close>

lemma docker_60_findall:
  "re_findall hex_id_pattern True
     ''/docker/abcdef0123456789abcdef0123456789abcdef0123456789abcdef012345'' =
   [''abcdef0123456789abcdef0123456789'', ''abcdef012345'', ''6789abcdef01'']"
  by (simp add: hex_eval)

lemma docker_60_result:
  "derive_container_id os
     (Some ''/docker/abcdef0123456789abcdef0123456789abcdef0123456789abcdef012345'') ns =
   Inr (Some ''6789abcdef01'')"
proof -
  have "py_lower ''6789abcdef01'' = ''6789abcdef01''"
    by (simp add: lower_eval)
  then show ?thesis
    by (simp add: derive_container_id_def docker_60_findall)
qed

text \<open>
  C3, as amended. For every cgroup path that holds 64, 32 or 12 hexadecimal characters
  in a row (in either case), the scan of \<open>derive_container_id\<close> finds a match and the
  result is the last match of the scan, lower-cased: a block of exactly 64, 32 or 12
  hexadecimal characters of the path after which no 12 hexadecimal characters in a row
  remain. In particular \<open>/docker/\<close> followed by an identifier of 64 hexadecimal characters
  yields that identifier lower-cased. The identifier of the specification's example has
  60 characters, not 64: the matches are its first 32 characters, the next 12 and the
  next 12, and the result is \<open>6789abcdef01\<close>.
\<close>

theorem last_hex_match:
  "(has_hex_block 64 p \<or> has_hex_block 32 p \<or> has_hex_block 12 p \<longrightarrow>
      re_findall hex_id_pattern True p \<noteq> [] \<and>
      derive_container_id os (Some p) ns =
        Inr (Some (py_lower (last (re_findall hex_id_pattern True p)))) \<and>
      length (last (re_findall hex_id_pattern True p)) \<in> {12, 32, 64} \<and>
      list_all is_hex (last (re_findall hex_id_pattern True p)) \<and>
      (\<exists>pre post. p = pre @ last (re_findall hex_id_pattern True p) @ post \<and>
                   \<not> has_hex_block 12 post)) \<and>
   (length cid = 64 \<longrightarrow> list_all is_hex cid \<longrightarrow>
      derive_container_id os (Some (''/docker/'' @ cid)) ns = Inr (Some (py_lower cid))) \<and>
   derive_container_id os
     (Some ''/docker/abcdef0123456789abcdef0123456789abcdef0123456789abcdef012345'') ns =
     Inr (Some ''6789abcdef01'')"
proof (intro conjI impI)
  assume "has_hex_block 64 p \<or> has_hex_block 32 p \<or> has_hex_block 12 p"
  then have "has_hex_block 12 p"
    using has_hex_block_mono [of 12 64 p] has_hex_block_mono [of 12 32 p] by auto
  then show ne: "re_findall hex_id_pattern True p \<noteq> []"
    by (simp add: findall_hex_nonempty)
  then have "p \<noteq> []"
    using findall_hex_Nil by auto
  with ne show "derive_container_id os (Some p) ns =
      Inr (Some (py_lower (last (re_findall hex_id_pattern True p))))"
    by (simp add: derive_container_id_def split: list.splits)
  from findall_hex_last [OF ne]
  show "length (last (re_findall hex_id_pattern True p)) \<in> {12, 32, 64}"
    and "list_all is_hex (last (re_findall hex_id_pattern True p))"
    and "\<exists>pre post. p = pre @ last (re_findall hex_id_pattern True p) @ post \<and>
                   \<not> has_hex_block 12 post"
    using findall_hex_nonempty by blast+
next
  assume "length cid = 64" "list_all is_hex cid"
  then have "re_findall hex_id_pattern True (''/docker/'' @ cid) = [cid]"
    by (rule findall_docker_id)
  moreover have "derive_container_id os (Some q) ns = Inr (Some (py_lower cid))"
    if "re_findall hex_id_pattern True q = [cid]" for q
    using that findall_hex_Nil by (auto simp: derive_container_id_def)
  ultimately show "derive_container_id os (Some (''/docker/'' @ cid)) ns = Inr (Some (py_lower cid))"
    by blast
next
  show "derive_container_id os
     (Some ''/docker/abcdef0123456789abcdef0123456789abcdef0123456789abcdef012345'') ns =
     Inr (Some ''6789abcdef01'')"
    by (rule docker_60_result)
qed

lemma upper_hex_id_facts:
  "length ''ABCDEF0123456789abcdef0123456789abcdef0123456789abcdef0123456789'' = 64"
  "list_all is_hex ''ABCDEF0123456789abcdef0123456789abcdef0123456789abcdef0123456789''"
  "py_lower ''ABCDEF0123456789abcdef0123456789abcdef0123456789abcdef0123456789'' =
     ''abcdef0123456789abcdef0123456789abcdef0123456789abcdef0123456789''"
  by (simp_all add: is_hex_def lower_eval char_of_def bit_0)

theorem last_hex_match_witness:
  "has_hex_block 64 ''/docker/ABCDEF0123456789abcdef0123456789abcdef0123456789abcdef0123456789'' \<and>
   length ''ABCDEF0123456789abcdef0123456789abcdef0123456789abcdef0123456789'' = 64 \<and>
   list_all is_hex ''ABCDEF0123456789abcdef0123456789abcdef0123456789abcdef0123456789'' \<and>
   derive_container_id host
     (Some ''/docker/ABCDEF0123456789abcdef0123456789abcdef0123456789abcdef0123456789'') None =
     Inr (Some ''abcdef0123456789abcdef0123456789abcdef0123456789abcdef0123456789'') \<and>
   last (re_findall hex_id_pattern True
      ''/docker/ABCDEF0123456789abcdef0123456789abcdef0123456789abcdef0123456789'') =
     ''ABCDEF0123456789abcdef0123456789abcdef0123456789abcdef0123456789''"
proof -
  let ?cid = "''ABCDEF0123456789abcdef0123456789abcdef0123456789abcdef0123456789''"
  let ?p = "''/docker/ABCDEF0123456789abcdef0123456789abcdef0123456789abcdef0123456789''"
  have p: "?p = ''/docker/'' @ ?cid @ []"
    by simp
  have blk: "has_hex_block 64 ?p"
    unfolding has_hex_block_iff using p upper_hex_id_facts(1,2) by blast
  have fa: "re_findall hex_id_pattern True ?p = [?cid]"
    using findall_docker_id [OF upper_hex_id_facts(1,2)] by simp
  from last_hex_match [of ?p host None ?cid] blk
  have "derive_container_id host (Some ?p) None =
      Inr (Some (py_lower (last (re_findall hex_id_pattern True ?p))))"
    by blast
  then have r: "derive_container_id host (Some ?p) None =
      Inr (Some ''abcdef0123456789abcdef0123456789abcdef0123456789abcdef0123456789'')"
    by (simp only: fa last_ConsL upper_hex_id_facts(3))
  from blk upper_hex_id_facts(1,2) r fa show ?thesis
    by simp
qed

theorem docker_example_counterexample:
  "length ''abcdef0123456789abcdef0123456789abcdef0123456789abcdef012345'' = 60 \<and>
   derive_container_id host
     (Some ''/docker/abcdef0123456789abcdef0123456789abcdef0123456789abcdef012345'') None =
     Inr (Some ''6789abcdef01'') \<and>
   derive_container_id host
     (Some ''/docker/abcdef0123456789abcdef0123456789abcdef0123456789abcdef012345'') None \<noteq>
     Inr (Some ''abcdef0123456789abcdef0123456789abcdef0123456789abcdef012345'')"
  by (simp add: docker_60_result)

subsection \<open>The Kubernetes example\<close>

text \<open>
  C2. The claim is that \<open>derive_container_id\<close> returns the pod identifier
  \<open>ab12cd34-1234-5678-9abc-def012345678\<close> for the path below. The scan for hexadecimal
  identifiers runs first and finds the last group of the identifier, 12 hexadecimal
  characters, so the function returns \<open>def012345678\<close> and the search for the pod marker,
  which would find the identifier, is never made.
\<close>

theorem kube_pod_path_result:
  "derive_container_id os
     (Some ''/kubepods/besteffort/podAB12cd34-1234-5678-9abc-def012345678/container1'') None =
   Inr (Some ''def012345678'') \<and>
   map_option (\<lambda>groups. groups ! 3)
     (re_search kube_pattern True
        ''/kubepods/besteffort/podAB12cd34-1234-5678-9abc-def012345678/container1'') =
   Some ''AB12cd34-1234-5678-9abc-def012345678''"
proof -
  have "re_findall hex_id_pattern True
          ''/kubepods/besteffort/podAB12cd34-1234-5678-9abc-def012345678/container1'' =
        [''def012345678'']"
    by (simp add: hex_eval)
  moreover have "py_lower ''def012345678'' = ''def012345678''"
    by (simp add: lower_eval)
  ultimately have "derive_container_id os
     (Some ''/kubepods/besteffort/podAB12cd34-1234-5678-9abc-def012345678/container1'') None =
     Inr (Some ''def012345678'')"
    by (simp add: derive_container_id_def)
  moreover have "map_option (\<lambda>groups. groups ! 3)
     (re_search kube_pattern True
        ''/kubepods/besteffort/podAB12cd34-1234-5678-9abc-def012345678/container1'') =
     Some ''AB12cd34-1234-5678-9abc-def012345678''"
    by (simp add: kube_eval)
  ultimately show ?thesis
    by blast
qed

subsection \<open>The last segment\<close>

lemma takeWhile_no_slash: "CHR ''/'' \<notin> set xs \<Longrightarrow> takeWhile (\<lambda>c. c \<noteq> CHR ''/'') (xs @ ys) = xs @ takeWhile (\<lambda>c. c \<noteq> CHR ''/'') ys"
  by (induction xs) auto

lemma rsplit1_last_append:
  assumes "pre = [] \<or> last pre = CHR ''/''" "CHR ''/'' \<notin> set seg"
  shows "py_rsplit1_last CHR ''/'' (pre @ seg) = seg"
proof (cases "pre = []")
  case True
  have "rev (takeWhile (\<lambda>c. c \<noteq> CHR ''/'') (rev seg @ [])) = seg"
    using assms(2) by (subst takeWhile_no_slash) simp_all
  then show ?thesis
    unfolding py_rsplit1_last_def True by simp
next
  case False
  with assms(1) obtain q where pre: "pre = q @ [CHR ''/'']"
    by (metis append_butlast_last_id)
  have "takeWhile (\<lambda>c. c \<noteq> CHR ''/'') (rev seg @ CHR ''/'' # rev q) = rev seg"
    using assms(2) by (subst takeWhile_no_slash) simp_all
  then show ?thesis
    by (simp add: py_rsplit1_last_def pre)
qed

lemma derive_last_segment:
  assumes "p \<noteq> []" "re_findall hex_id_pattern True p = []" "re_search kube_pattern True p = None"
    "py_rsplit1_last CHR ''/'' p = seg"
  shows "derive_container_id os (Some p) ns =
        (if seg \<notin> {[], ''/'', ''user.slice'', ''system.slice'', ''init.scope''}
         then Inr (Some seg) else cgroupns_fallback os ns)"
  using assms by (simp add: derive_container_id_def excluded_suffixes_def Let_def)

text \<open>
  C9. When neither the scan for hexadecimal identifiers nor the search for the pod marker
  finds anything in a non-empty cgroup path, the final \<open>/\<close>-delimited segment of the path
  is returned as the container id unless it is empty, \<open>/\<close>, \<open>user.slice\<close>,
  \<open>system.slice\<close> or \<open>init.scope\<close>; then the function goes on to the namespace step.
  In particular \<open>derive_container_id("/user.slice", None)\<close> is absent.
\<close>

theorem last_segment_fallback:
  "(p = pre @ seg \<longrightarrow> p \<noteq> [] \<longrightarrow> (pre = [] \<or> last pre = CHR ''/'') \<longrightarrow> CHR ''/'' \<notin> set seg \<longrightarrow>
    re_findall hex_id_pattern True p = [] \<longrightarrow> re_search kube_pattern True p = None \<longrightarrow>
      derive_container_id os (Some p) ns =
        (if seg \<notin> {[], ''/'', ''user.slice'', ''system.slice'', ''init.scope''}
         then Inr (Some seg) else cgroupns_fallback os ns)) \<and>
   derive_container_id os (Some ''/user.slice'') None = Inr None"
proof (intro conjI impI)
  assume p: "p = pre @ seg" and ne: "p \<noteq> []" and pre: "pre = [] \<or> last pre = CHR ''/''"
    and seg: "CHR ''/'' \<notin> set seg" and f: "re_findall hex_id_pattern True p = []"
    and k: "re_search kube_pattern True p = None"
  have "py_rsplit1_last CHR ''/'' p = seg"
    unfolding p using pre seg by (rule rsplit1_last_append)
  with ne f k show "derive_container_id os (Some p) ns =
        (if seg \<notin> {[], ''/'', ''user.slice'', ''system.slice'', ''init.scope''}
         then Inr (Some seg) else cgroupns_fallback os ns)"
    by (rule derive_last_segment)
next
  have "re_findall hex_id_pattern True ''/user.slice'' = []"
    by (simp add: hex_eval)
  moreover have "re_search kube_pattern True ''/user.slice'' = None"
    by (simp add: kube_eval)
  moreover have "py_rsplit1_last CHR ''/'' ''/user.slice'' = ''user.slice''"
    by (simp add: py_rsplit1_last_def)
  ultimately show "derive_container_id os (Some ''/user.slice'') None = Inr None"
    by (simp add: derive_container_id_def excluded_suffixes_def cgroupns_fallback_def)
qed


theorem last_segment_fallback_witness:
  "''/system.slice/docker.service'' = ''/system.slice/'' @ ''docker.service'' \<and>
   last ''/system.slice/'' = CHR ''/'' \<and> CHR ''/'' \<notin> set ''docker.service'' \<and>
   re_findall hex_id_pattern True ''/system.slice/docker.service'' = [] \<and>
   re_search kube_pattern True ''/system.slice/docker.service'' = None \<and>
   derive_container_id host (Some ''/system.slice/docker.service'') None =
     Inr (Some ''docker.service'') \<and>
   derive_container_id host (Some ''/user.slice'') None = Inr None"
proof -
  have a: "''/system.slice/docker.service'' = ''/system.slice/'' @ ''docker.service''"
    "''/system.slice/docker.service'' \<noteq> []"
    "''/system.slice/'' = [] \<or> last ''/system.slice/'' = CHR ''/''"
    "CHR ''/'' \<notin> set ''docker.service''"
    by simp_all
  have f: "re_findall hex_id_pattern True ''/system.slice/docker.service'' = []"
    by (simp add: hex_eval)
  have k: "re_search kube_pattern True ''/system.slice/docker.service'' = None"
    by (simp add: kube_eval)
  have n: "''docker.service'' \<notin> {[], ''/'', ''user.slice'', ''system.slice'', ''init.scope''}"
    by simp
  from last_segment_fallback
    [of "''/system.slice/docker.service''" "''/system.slice/''" "''docker.service''" host None]
    a f k
  have "derive_container_id host (Some ''/system.slice/docker.service'') None =
        (if ''docker.service'' \<notin> {[], ''/'', ''user.slice'', ''system.slice'', ''init.scope''}
         then Inr (Some ''docker.service'') else cgroupns_fallback host None) \<and>
        derive_container_id host (Some ''/user.slice'') None = Inr None"
    by blast
  with n a f k show ?thesis
    by simp
qed

subsection \<open>The namespace step\<close>

text \<open>
  C6, as amended. For an absent cgroup path and every present namespace inode \<open>n\<close> other
  than 0 that differs from the cgroup-namespace inode of pid 1, \<open>derive_container_id\<close>
  returns \<open>cgroupns-\<close> followed by the decimal inode number; in particular 999999 gives
  \<open>cgroupns-999999\<close>. The inode 0 counts as absent: the test \<open>if cgroup_ns_inode and ...\<close>
  is false for it.
\<close>

theorem cgroupns_id_for_nonzero_inode:
  "(n \<noteq> 0 \<longrightarrow> read_cgroup_namespace_inode os 1 \<noteq> Inr (Some n) \<longrightarrow>
      derive_container_id os None (Some n) = Inr (Some (''cgroupns-'' @ py_str_int n))) \<and>
   (read_cgroup_namespace_inode os 1 \<noteq> Inr (Some 999999) \<longrightarrow>
      derive_container_id os None (Some 999999) = Inr (Some ''cgroupns-999999''))"
proof -
  have gen: "derive_container_id os None (Some k) = Inr (Some (''cgroupns-'' @ py_str_int k))"
    if "k \<noteq> 0" "read_cgroup_namespace_inode os 1 \<noteq> Inr (Some k)" for k
  proof -
    obtain r where r: "read_cgroup_namespace_inode os 1 = Inr r"
      using read_ns_inode_total by blast
    with that show ?thesis
      by (simp add: derive_container_id_def cgroupns_fallback_def)
  qed
  have "py_str_int 999999 = ''999999''"
    by (simp add: str_int_eval)
  with gen [of 999999] gen [of n] show ?thesis
    by simp
qed

theorem cgroupns_id_for_nonzero_inode_witness:
  "(4026532512 :: int) \<noteq> 0 \<and>
   read_cgroup_namespace_inode host 1 \<noteq> Inr (Some 4026532512) \<and>
   derive_container_id host None (Some 4026532512) = Inr (Some ''cgroupns-4026532512'') \<and>
   read_cgroup_namespace_inode host 1 \<noteq> Inr (Some 999999) \<and>
   derive_container_id host None (Some 999999) = Inr (Some ''cgroupns-999999'')"
proof -
  have a: "read_cgroup_namespace_inode host 1 \<noteq> Inr (Some 4026532512)"
    by (simp add: host_init_inode)
  have b: "read_cgroup_namespace_inode host 1 \<noteq> Inr (Some 999999)"
    by (simp add: host_init_inode)
  have s: "py_str_int 4026532512 = ''4026532512''"
    by (simp add: str_int_eval)
  from cgroupns_id_for_nonzero_inode [of 4026532512 host] a b
  have "derive_container_id host None (Some 4026532512) =
          Inr (Some (''cgroupns-'' @ py_str_int 4026532512)) \<and>
        derive_container_id host None (Some 999999) = Inr (Some ''cgroupns-999999'')"
    by simp
  with a b s show ?thesis
    by simp
qed

theorem cgroupns_inode_zero_counterexample:
  "read_cgroup_namespace_inode host 1 = Inr (Some 4026531835) \<and>
   (0 :: int) \<noteq> 4026531835 \<and>
   py_str_int 0 = ''0'' \<and>
   derive_container_id host None (Some 0) = Inr None \<and>
   derive_container_id host None (Some 0) \<noteq> Inr (Some ''cgroupns-0'')"
  by (simp add: host_init_inode derive_container_id_def cgroupns_fallback_def str_int_eval)

section \<open>The hash: theorems\<close>

subsection \<open>Computing BLAKE2b on numerals\<close>

lemma add64_eval:
  "add64 a b =
     (let s = a + b in
      if s < 18446744073709551616 then s
      else if s < 36893488147419103232 then s - 18446744073709551616
      else s mod 18446744073709551616)"
proof -
  have "(a + b) mod 18446744073709551616 = a + b - 18446744073709551616"
    if "\<not> a + b < 18446744073709551616" "a + b < 36893488147419103232"
    using that by (simp add: mod_if)
  then show ?thesis
    by (simp add: add64_def Let_def)
qed

lemma rotr64_eval:
  "rotr64 n w = drop_bit n w + push_bit (64 - n) (w - push_bit n (drop_bit n w))"
proof -
  have "w mod 2 ^ n = w - 2 ^ n * (w div 2 ^ n)"
    by (simp add: minus_mult_div_eq_mod)
  then show ?thesis
    by (simp add: rotr64_def drop_bit_eq_div push_bit_eq_mult mult.commute)
qed

lemma blake2b_G_mix4:
  assumes "a < length v" "b < length v" "c < length v" "d < length v" "distinct [a, b, c, d]"
  shows "blake2b_G a b c d x y v =
     (case mix4 (v ! a) (v ! b) (v ! c) (v ! d) x y of
        (a2, b2, c2, d2) \<Rightarrow> v[a := a2, b := b2, c := c2, d := d2])"
  using assms
  by (auto simp: blake2b_G_def mix4_def Let_def list_eq_iff_nth_eq nth_list_update)

lemma G_columns:
  "blake2b_G 0 4 8 12 x y [v0, v1, v2, v3, v4, v5, v6, v7, v8, v9, v10, v11, v12, v13, v14, v15] =
     (case mix4 v0 v4 v8 v12 x y of
        (a, b, c, d) \<Rightarrow> [a, v1, v2, v3, b, v5, v6, v7, c, v9, v10, v11, d, v13, v14, v15])"
  "blake2b_G (Suc 0) 5 9 13 x y [v0, v1, v2, v3, v4, v5, v6, v7, v8, v9, v10, v11, v12, v13, v14, v15] =
     (case mix4 v1 v5 v9 v13 x y of
        (a, b, c, d) \<Rightarrow> [v0, a, v2, v3, v4, b, v6, v7, v8, c, v10, v11, v12, d, v14, v15])"
  "blake2b_G 2 6 10 14 x y [v0, v1, v2, v3, v4, v5, v6, v7, v8, v9, v10, v11, v12, v13, v14, v15] =
     (case mix4 v2 v6 v10 v14 x y of
        (a, b, c, d) \<Rightarrow> [v0, v1, a, v3, v4, v5, b, v7, v8, v9, c, v11, v12, v13, d, v15])"
  "blake2b_G 3 7 11 15 x y [v0, v1, v2, v3, v4, v5, v6, v7, v8, v9, v10, v11, v12, v13, v14, v15] =
     (case mix4 v3 v7 v11 v15 x y of
        (a, b, c, d) \<Rightarrow> [v0, v1, v2, a, v4, v5, v6, b, v8, v9, v10, c, v12, v13, v14, d])"
  by (simp_all add: blake2b_G_mix4 split: prod.split)

lemma G_diagonals:
  "blake2b_G 0 5 10 15 x y [v0, v1, v2, v3, v4, v5, v6, v7, v8, v9, v10, v11, v12, v13, v14, v15] =
     (case mix4 v0 v5 v10 v15 x y of
        (a, b, c, d) \<Rightarrow> [a, v1, v2, v3, v4, b, v6, v7, v8, v9, c, v11, v12, v13, v14, d])"
  "blake2b_G (Suc 0) 6 11 12 x y [v0, v1, v2, v3, v4, v5, v6, v7, v8, v9, v10, v11, v12, v13, v14, v15] =
     (case mix4 v1 v6 v11 v12 x y of
        (a, b, c, d) \<Rightarrow> [v0, a, v2, v3, v4, v5, b, v7, v8, v9, v10, c, d, v13, v14, v15])"
  "blake2b_G 2 7 8 13 x y [v0, v1, v2, v3, v4, v5, v6, v7, v8, v9, v10, v11, v12, v13, v14, v15] =
     (case mix4 v2 v7 v8 v13 x y of
        (a, b, c, d) \<Rightarrow> [v0, v1, a, v3, v4, v5, v6, b, c, v9, v10, v11, v12, d, v14, v15])"
  "blake2b_G 3 4 9 14 x y [v0, v1, v2, v3, v4, v5, v6, v7, v8, v9, v10, v11, v12, v13, v14, v15] =
     (case mix4 v3 v4 v9 v14 x y of
        (a, b, c, d) \<Rightarrow> [v0, v1, v2, a, b, v5, v6, v7, v8, c, v10, v11, v12, v13, d, v15])"
  by (simp_all add: blake2b_G_mix4 split: prod.split)

lemma le_bytes8_eval:
  "le_bytes8 w = map (\<lambda>i. take_bit 8 (drop_bit (8 * i) w)) [0..<8]"
  by (simp add: le_bytes8_def take_bit_eq_mod drop_bit_eq_div power_mult)

lemma upt_0_8: "[0..<8] = [0, 1, 2, 3, 4, 5, 6, 7]"
  by (simp add: upt_conv_Cons)

lemma upt_0_12: "[0..<12] = [0, 1, 2, 3, 4, 5, 6, 7, 8, 9, 10, 11]"
  by (simp add: upt_conv_Cons)

lemma upt_0_16: "[0..<16] = [0, 1, 2, 3, 4, 5, 6, 7, 8, 9, 10, 11, 12, 13, 14, 15]"
  by (simp add: upt_conv_Cons)

lemma le_word_Nil: "le_word [] = 0"
  by (simp add: le_word_def)

lemma le_word_Cons: "le_word (b # bs) = b + 256 * le_word bs"
  by (simp add: le_word_def)

lemma le_word_zeros: "le_word (replicate n 0) = 0"
  by (induction n) (simp_all add: le_word_def)

lemmas blake2b_eval = blake2b_def blake2b_blocks.simps block_words_def le_word_Nil le_word_Cons
  le_word_zeros le_bytes8_eval upt_0_8 upt_0_12 upt_0_16
  blake2b_F_def not64_def blake2b_round_def blake2b_SIGMA_def blake2b_IV_def G_columns G_diagonals
  mix4_def Let_def add64_eval rotr64_eval


text \<open>
  The test vector of RFC 7693, appendix A: BLAKE2b-512 of \<open>abc\<close>.
\<close>

lemma blake2b_512_abc:
  "blake2b 64 [0x61, 0x62, 0x63] =
     [0xba, 0x80, 0xa5, 0x3f, 0x98, 0x1c, 0x4d, 0x0d, 0x6a, 0x27, 0x97, 0xb6, 0x9f, 0x12, 0xf6, 0xe9,
      0x4c, 0x21, 0x2f, 0x14, 0x68, 0x5a, 0xc4, 0xb7, 0x4b, 0x12, 0xbb, 0x6f, 0xdb, 0xff, 0xa2, 0xd1,
      0x7d, 0x87, 0xc5, 0x39, 0x2a, 0xab, 0x79, 0x2d, 0xc2, 0x52, 0xd5, 0xde, 0x45, 0x33, 0xcc, 0x95,
      0x18, 0xd3, 0x8a, 0xa8, 0xdb, 0xf1, 0x92, 0x5a, 0xb9, 0x23, 0x86, 0xed, 0xd4, 0x00, 0x99, 0x23]"
  by (simp add: blake2b_eval cong: let_weak_cong)

lemma blake2b_8_ab_c:
  "blake2b 8 [0x61, 0x62, 0, 0x63, 0] = [0xaf, 0xd2, 0x07, 0xed, 0x84, 0x93, 0x9b, 0x3b]"
  by (simp add: blake2b_eval cong: let_weak_cong)

lemma blake2b_8_a_bc:
  "blake2b 8 [0x61, 0, 0x62, 0x63, 0] = [0x13, 0xba, 0x39, 0xb9, 0x13, 0xee, 0x7f, 0xad]"
  by (simp add: blake2b_eval cong: let_weak_cong)

subsection \<open>The digest has 8 bytes\<close>

lemma length_blake2b_F: "length (blake2b_F h m t f) = 8"
  by (simp add: blake2b_F_def Let_def)

lemma length_blake2b_blocks: "length (blake2b_blocks h t d) = 8"
proof (induction h t d rule: blake2b_blocks.induct)
  case (1 h t d)
  show ?case
  proof (cases "length d \<le> 128")
    case True
    then show ?thesis
      by (subst blake2b_blocks.simps) (simp add: length_blake2b_F)
  next
    case False
    with "1.IH" show ?thesis
      by (subst blake2b_blocks.simps) simp
  qed
qed

lemma length_le_bytes8: "length (le_bytes8 w) = 8"
  by (simp add: le_bytes8_def)

lemma length_concat_le_bytes8: "length (concat (map le_bytes8 ws)) = 8 * length ws"
  by (induction ws) (simp_all add: length_le_bytes8)

lemma length_blake2b_8: "length (blake2b 8 d) = 8"
  by (simp add: blake2b_def length_concat_le_bytes8 length_blake2b_blocks)

lemma bytes_le_bytes8: "list_all (\<lambda>b. b < 256) (le_bytes8 w)"
  by (simp add: le_bytes8_def list_all_iff)

lemma bytes_blake2b: "list_all (\<lambda>b. b < 256) (blake2b nn d)"
proof -
  have "b < 256" if "b \<in> set (concat (map le_bytes8 ws))" for b ws
    using that by (auto simp: le_bytes8_def)
  then show ?thesis
    unfolding blake2b_def list_all_iff by (blast dest: in_set_takeD)
qed

lemma foldl_bytes_bound:
  "list_all (\<lambda>b. b < 256) bs \<Longrightarrow>
     foldl (\<lambda>acc b. 256 * acc + b) (a :: nat) bs < 256 ^ length bs * (a + 1)"
proof (induction bs arbitrary: a)
  case Nil
  then show ?case by simp
next
  case (Cons b bs)
  from Cons.prems have b: "b < 256" and bs: "list_all (\<lambda>b. b < 256) bs"
    by simp_all
  have "foldl (\<lambda>acc b. 256 * acc + b) (256 * a + b) bs < 256 ^ length bs * (256 * a + b + 1)"
    by (rule Cons.IH [OF bs])
  also have "\<dots> \<le> 256 ^ length bs * (256 * (a + 1))"
  proof (rule mult_le_mono2)
    show "256 * a + b + 1 \<le> 256 * (a + 1)"
      using b by simp
  qed
  also have "\<dots> = 256 ^ length (b # bs) * (a + 1)"
    by (simp add: distrib_left distrib_right mult.commute mult.left_commute)
  finally show ?case
    by simp
qed

lemma from_bytes_big_bound:
  assumes "length bs = 8" "list_all (\<lambda>b. b < 256) bs"
  shows "0 \<le> from_bytes_big bs \<and> from_bytes_big bs < 2 ^ 64"
proof -
  have "foldl (\<lambda>acc b. 256 * acc + b) 0 bs < 256 ^ 8 * (0 + 1)"
    using foldl_bytes_bound [OF assms(2), of 0] assms(1) by simp
  then have "foldl (\<lambda>acc b. 256 * acc + b) 0 bs < 2 ^ 64"
    by simp
  then have "int (foldl (\<lambda>acc b. 256 * acc + b) 0 bs) < int (2 ^ 64)"
    by (simp only: of_nat_less_iff)
  then show ?thesis
    by (simp add: from_bytes_big_def)
qed

subsection \<open>What is hashed\<close>

lemma updates_collect:
  "fold (\<lambda>part h. hash_update (hash_update h (encode_utf8 (py_str part))) [0]) parts acc =
     acc @ concat (map (\<lambda>part. encode_utf8 (py_str part) @ [0]) parts)"
  by (induction parts arbitrary: acc) (simp_all add: hash_update_def)

lemma hash_to_u64_stream:
  "hash_to_u64 parts =
     from_bytes_big (blake2b 8 (concat (map (\<lambda>part. encode_utf8 (py_str part) @ [0]) parts)))"
  by (simp add: hash_to_u64_def hash_digest_def updates_collect)

lemma hash_ab_c: "hash_to_u64 [PStr ''ab'', PStr ''c''] = 12669197418459536187"
proof -
  have c: "concat (map (\<lambda>part. encode_utf8 (py_str part) @ [0]) [PStr ''ab'', PStr ''c'']) =
        [0x61, 0x62, 0, 0x63, 0]"
    by (simp add: encode_utf8_def utf8_char_def py_str_def)
  show ?thesis
    unfolding hash_to_u64_stream c blake2b_8_ab_c by (simp add: from_bytes_big_def)
qed

lemma hash_a_bc: "hash_to_u64 [PStr ''a'', PStr ''bc''] = 1421512099454943149"
proof -
  have c: "concat (map (\<lambda>part. encode_utf8 (py_str part) @ [0]) [PStr ''a'', PStr ''bc'']) =
        [0x61, 0, 0x62, 0x63, 0]"
    by (simp add: encode_utf8_def utf8_char_def py_str_def)
  show ?thesis
    unfolding hash_to_u64_stream c blake2b_8_a_bc by (simp add: from_bytes_big_def)
qed

text \<open>
  C5. For every sequence of parts (strings of the code points 0 to 255, and integers),
  \<open>hash_to_u64\<close> is the big-endian unsigned 64-bit reading of the 8-byte BLAKE2b digest of
  the bytes made of each part's text in UTF-8 followed by one null byte, the last part
  included; the digest has 8 bytes and the result lies in \<open>0 .. 2^64 - 1\<close>. The parts
  \<open>[PStr ''ab'', PStr ''c'']\<close> hash to 12669197418459536187 and \<open>[PStr ''a'', PStr ''bc'']\<close>
  to 1421512099454943149, which differ.
\<close>

theorem hash_to_u64_digest:
  "hash_to_u64 parts =
     from_bytes_big (blake2b 8 (concat (map (\<lambda>part. encode_utf8 (py_str part) @ [0]) parts))) \<and>
   length (blake2b 8 bytes) = 8 \<and>
   list_all (\<lambda>b. b < 256) (blake2b 8 bytes) \<and>
   from_bytes_big [b0, b1, b2, b3, b4, b5, b6, b7] =
     int (b0 * 256 ^ 7 + b1 * 256 ^ 6 + b2 * 256 ^ 5 + b3 * 256 ^ 4 + b4 * 256 ^ 3 + b5 * 256 ^ 2 +
          b6 * 256 + b7) \<and>
   0 \<le> hash_to_u64 parts \<and> hash_to_u64 parts < 2 ^ 64 \<and>
   hash_to_u64 [PStr ''ab'', PStr ''c''] = 12669197418459536187 \<and>
   hash_to_u64 [PStr ''a'', PStr ''bc''] = 1421512099454943149 \<and>
   hash_to_u64 [PStr ''ab'', PStr ''c''] \<noteq> hash_to_u64 [PStr ''a'', PStr ''bc'']"
proof -
  have big: "from_bytes_big [b0, b1, b2, b3, b4, b5, b6, b7] =
     int (b0 * 256 ^ 7 + b1 * 256 ^ 6 + b2 * 256 ^ 5 + b3 * 256 ^ 4 + b4 * 256 ^ 3 + b5 * 256 ^ 2 +
          b6 * 256 + b7)"
    by (simp add: from_bytes_big_def)
  have range: "0 \<le> hash_to_u64 parts \<and> hash_to_u64 parts < 2 ^ 64"
    unfolding hash_to_u64_stream
    by (rule from_bytes_big_bound) (rule length_blake2b_8, rule bytes_blake2b)
  have "hash_to_u64 [PStr ''ab'', PStr ''c''] \<noteq> hash_to_u64 [PStr ''a'', PStr ''bc'']"
    by (simp add: hash_ab_c hash_a_bc)
  with hash_to_u64_stream [of parts] length_blake2b_8 [of bytes] bytes_blake2b [of 8 bytes]
    big range hash_ab_c hash_a_bc
  show ?thesis
    by blast
qed

end
